theory Spec2Isabelle
  imports Main
begin

section \<open>Strings\<close>

text \<open>
  A Python \<open>str\<close> is modelled as a \<open>string\<close>: one \<open>char\<close> stands for one code point
  (those below 256), so \<open>length\<close> is Python's \<open>len\<close>.
\<close>

definition newline :: char where
  "newline = CHR 0x0A"

text \<open>\<open>s.startswith(p)\<close>\<close>

definition startswith :: "string \<Rightarrow> string \<Rightarrow> bool" where
  "startswith s p = (take (length p) s = p)"

text \<open>\<open>p in s\<close> on strings: \<open>p\<close> occurs in \<open>s\<close> as a contiguous run.\<close>

fun str_in :: "string \<Rightarrow> string \<Rightarrow> bool" where
  "str_in p [] = (p = [])"
| "str_in p (c # cs) = (startswith (c # cs) p \<or> str_in p cs)"

section \<open>The ignore matcher\<close>

text \<open>
  \<^verbatim>\<open>
  def should_ignore(file_path, ignore_list):
      ignore_list = [pattern for pattern in ignore_list
                     if pattern and not pattern.startswith("#")]
      for pattern in ignore_list:
          if pattern in file_path or (pattern == file_path) or fnmatch.fnmatch(file_path, pattern):
              return True
      return False
  \<close>
  \<open>fnmatch.fnmatch\<close> belongs to the standard library and depends on the host (it folds
  case where the file system does), so it is a parameter \<open>fnm\<close>, called as
  \<open>fnm file_path pattern\<close>. The message printed under \<open>verbose\<close> does not change the
  result and is left out.
\<close>

definition keep_pattern :: "string \<Rightarrow> bool" where
  "keep_pattern pattern = (pattern \<noteq> [] \<and> \<not> startswith pattern ''#'')"

fun match_loop :: "(string \<Rightarrow> string \<Rightarrow> bool) \<Rightarrow> string \<Rightarrow> string list \<Rightarrow> bool" where
  "match_loop fnm file_path [] = False"
| "match_loop fnm file_path (pattern # rest) =
     (if str_in pattern file_path \<or> pattern = file_path \<or> fnm file_path pattern then True
      else match_loop fnm file_path rest)"

definition should_ignore :: "(string \<Rightarrow> string \<Rightarrow> bool) \<Rightarrow> string \<Rightarrow> string list \<Rightarrow> bool" where
  "should_ignore fnm file_path ignore_list =
     match_loop fnm file_path (filter keep_pattern ignore_list)"

text \<open>
  A matcher for closed instances: the wildcards \<open>*\<close> (any run of characters) and \<open>?\<close>
  (any one character) on a case-sensitive host; every other character stands for itself.
  The theorems below hold for every matcher.
\<close>

fun wildcard :: "string \<Rightarrow> string \<Rightarrow> bool" where
  "wildcard [] [] = True"
| "wildcard [] (p # ps) = (p = CHR ''*'' \<and> wildcard [] ps)"
| "wildcard (c # cs) [] = False"
| "wildcard (c # cs) (p # ps) =
     (if p = CHR ''*'' then wildcard (c # cs) ps \<or> wildcard cs (p # ps)
      else (p = CHR ''?'' \<or> p = c) \<and> wildcard cs ps)"

section \<open>Text files\<close>

text \<open>
  The contents of a file are its characters as stored; the codec maps characters to
  bytes one to one, so equal contents are equal byte for byte. A file opened as text
  (\<open>open(path, 'r')\<close>, \<open>open(path, 'w')\<close>) goes through Python's newline translation:
  on reading, a carriage return followed by a newline, and a carriage return alone, are
  both read as one newline (\<open>read_newlines\<close>); on writing, a newline is stored as
  \<open>os.linesep\<close>, which is carriage return and newline on Windows and the newline itself
  elsewhere (\<open>write_newlines\<close>). Iterating over an open text file (\<open>for line in f\<close>)
  yields the lines of the text read, each with its closing newline; the last line has none
  when the text does not end with one (\<open>iter_lines\<close>). \<open>byte_size\<close> is the size of
  stored characters: the spec fixes UTF-8 for the output, which takes one byte for a code
  point below 128 and two for the others below 256.
\<close>

definition carriage_return :: char where
  "carriage_return = CHR 0x0D"

fun read_newlines :: "string \<Rightarrow> string" where
  "read_newlines [] = []"
| "read_newlines [c] = (if c = carriage_return then [newline] else [c])"
| "read_newlines (c # d # s) =
     (if c = carriage_return then
        (if d = newline then newline # read_newlines s else newline # read_newlines (d # s))
      else c # read_newlines (d # s))"

definition write_newlines :: "bool \<Rightarrow> string \<Rightarrow> string" where
  "write_newlines on_win32 s =
     (if on_win32
      then concat (map (\<lambda>c. if c = newline then [carriage_return, newline] else [c]) s)
      else s)"

text \<open>
  \<open>crlf_only s\<close>: the line ends of \<open>s\<close> are those of Windows, every carriage return
  followed by a newline and every newline preceded by a carriage return.
\<close>

fun crlf_only :: "string \<Rightarrow> bool" where
  "crlf_only [] = True"
| "crlf_only [c] = (c \<noteq> carriage_return \<and> c \<noteq> newline)"
| "crlf_only (c # d # s) =
     (if c = carriage_return then d = newline \<and> crlf_only s
      else c \<noteq> newline \<and> crlf_only (d # s))"

fun lines_from :: "string \<Rightarrow> string \<Rightarrow> string list" where
  "lines_from cur [] = (if cur = [] then [] else [cur])"
| "lines_from cur (c # cs) =
     (if c = newline then (cur @ [c]) # lines_from [] cs else lines_from (cur @ [c]) cs)"

definition iter_lines :: "string \<Rightarrow> string list" where
  "iter_lines text = lines_from [] text"

definition utf8_width :: "char \<Rightarrow> nat" where
  "utf8_width c = (if (of_char c :: nat) < 128 then 1 else 2)"

definition byte_size :: "string \<Rightarrow> nat" where
  "byte_size s = sum_list (map utf8_width s)"

section \<open>The pattern loader\<close>

text \<open>
  \<^verbatim>\<open>
  def get_ignore_list(ignore_file_path):
      ignore_list = []
      with open(ignore_file_path, 'r') as ignore_file:
          for line in ignore_file:
              if sys.platform == "win32":
                  line = line.replace("/", "\\")
              ignore_list.append(line.strip())
      return ignore_list
  \<close>
  \<open>str.strip()\<close> removes the white space at both ends; below 256 the white-space
  characters are the code points 9 to 13, 28 to 32, 133 and 160.
\<close>

definition isspace :: "char \<Rightarrow> bool" where
  "isspace c = ((of_char c :: nat) \<in> {9, 10, 11, 12, 13, 28, 29, 30, 31, 32, 133, 160})"

definition strip :: "string \<Rightarrow> string" where
  "strip s = rev (dropWhile isspace (rev (dropWhile isspace s)))"

definition slash_to_backslash :: "string \<Rightarrow> string" where
  "slash_to_backslash line = map (\<lambda>c. if c = CHR ''/'' then CHR 0x5C else c) line"

fun ignore_loop :: "bool \<Rightarrow> string list \<Rightarrow> string list \<Rightarrow> string list" where
  "ignore_loop on_win32 [] ignore_list = ignore_list"
| "ignore_loop on_win32 (line # rest) ignore_list =
     (let line' = (if on_win32 then slash_to_backslash line else line)
      in ignore_loop on_win32 rest (ignore_list @ [strip line']))"

definition get_ignore_list :: "bool \<Rightarrow> string \<Rightarrow> string list" where
  "get_ignore_list on_win32 ignore_file = ignore_loop on_win32 (iter_lines ignore_file) []"

section \<open>The host\<close>

text \<open>
  What the program asks of the standard library and the operating system is a record of
  functions: \<open>os_walk\<close> is \<open>os.walk\<close> (the triples \<open>(root, dirs, files)\<close> in the order
  it yields them), \<open>path_join\<close> and \<open>path_relpath\<close> are \<open>os.path.join\<close> and
  \<open>os.path.relpath\<close>, \<open>stat_size\<close> is the size \<open>os.stat\<close> reports (\<open>None\<close> when it
  fails: the path does not exist or is a broken link), \<open>read_text\<close> is opening a file for
  reading as text with \<open>errors='ignore'\<close> and reading it whole (\<open>None\<close> when opening
  raises; the text is the one read, newlines translated), \<open>read_strict\<close> is the same
  with the default error handling (the exception raised, \<open>OSError\<close> when the file cannot
  be opened and \<open>UnicodeDecodeError\<close> when it does not decode, or the text read),
  \<open>tree_error\<close> is
  the exception, if any, that listing the directories for \<open>-l\<close> ends with, and \<open>here\<close>
  is the directory of the script.
\<close>

datatype error = IndexError | ValueError | OSError | UnicodeDecodeError | SystemExit nat

record host =
  win32 :: bool
  fnmatch :: "string \<Rightarrow> string \<Rightarrow> bool"
  os_walk :: "string \<Rightarrow> (string \<times> string list \<times> string list) list"
  path_join :: "string \<Rightarrow> string \<Rightarrow> string"
  path_relpath :: "string \<Rightarrow> string \<Rightarrow> string"
  stat_size :: "string \<Rightarrow> nat option"
  read_text :: "string \<Rightarrow> string option"
  read_strict :: "string \<Rightarrow> error + string"
  tree_error :: "string \<Rightarrow> string list \<Rightarrow> error option"
  here :: string

text \<open>\<open>os.path.exists\<close> and \<open>os.path.getsize\<close>, both through \<open>os.stat\<close>.\<close>

definition path_exists :: "host \<Rightarrow> string \<Rightarrow> bool" where
  "path_exists h p = (stat_size h p \<noteq> None)"

definition path_getsize :: "host \<Rightarrow> string \<Rightarrow> error + nat" where
  "path_getsize h p = (case stat_size h p of None \<Rightarrow> Inl OSError | Some n \<Rightarrow> Inr n)"

section \<open>The repository concatenator\<close>

text \<open>
  \<^verbatim>\<open>
  def process_repository(repo_path, ignore_list, output_file, verbose, exclude_large_files):
      for root, _, files in os.walk(repo_path):
          for file in files:
              file_path = os.path.join(root, file)
              relative_file_path = os.path.relpath(file_path, repo_path)
              if exclude_large_files and os.path.exists(file_path) \
                      and os.path.getsize(file_path) > LARGE_FILE_SIZE:
                  continue
              if not should_ignore(relative_file_path, ignore_list):
                  with open(file_path, 'r', errors='ignore') as file:
                      contents = file.read()
                  output_file.write("-" * 4 + "\n")
                  output_file.write(f"{relative_file_path}\n")
                  output_file.write(f"{contents}\n")
  \<close>
  The sink \<open>output_file\<close> is the text written to it so far; every function returns the
  sink together with the exception that ended it, if any. The lines printed under
  \<open>verbose\<close> go to the console and are left out.
\<close>

definition LARGE_FILE_SIZE :: nat where
  "LARGE_FILE_SIZE = 1000000"

definition delimiter :: string where
  "delimiter = replicate 4 CHR ''-''"

definition write_record :: "host \<Rightarrow> string list \<Rightarrow> string \<Rightarrow> string \<Rightarrow> string \<Rightarrow> string \<times> error option" where
  "write_record h ignore_list output_file file_path relative_file_path =
     (if \<not> should_ignore (fnmatch h) relative_file_path ignore_list then
        (case read_text h file_path of
           None \<Rightarrow> (output_file, Some OSError)
         | Some contents \<Rightarrow>
             (output_file @ (delimiter @ [newline]) @ (relative_file_path @ [newline])
                @ (contents @ [newline]), None))
      else (output_file, None))"

definition process_file ::
  "host \<Rightarrow> string \<Rightarrow> string list \<Rightarrow> string \<Rightarrow> bool \<Rightarrow> string \<Rightarrow> string \<Rightarrow> string \<times> error option" where
  "process_file h repo_path ignore_list output_file exclude_large_files root file =
     (let file_path = path_join h root file;
          relative_file_path = path_relpath h file_path repo_path
      in if exclude_large_files \<and> path_exists h file_path then
           (case path_getsize h file_path of
              Inl e \<Rightarrow> (output_file, Some e)
            | Inr n \<Rightarrow>
                if n > LARGE_FILE_SIZE then (output_file, None)
                else write_record h ignore_list output_file file_path relative_file_path)
         else write_record h ignore_list output_file file_path relative_file_path)"

fun process_files ::
  "host \<Rightarrow> string \<Rightarrow> string list \<Rightarrow> string \<Rightarrow> bool \<Rightarrow> string \<Rightarrow> string list \<Rightarrow> string \<times> error option" where
  "process_files h repo_path ignore_list output_file exclude_large_files root [] =
     (output_file, None)"
| "process_files h repo_path ignore_list output_file exclude_large_files root (file # files) =
     (case process_file h repo_path ignore_list output_file exclude_large_files root file of
        (output_file', Some e) \<Rightarrow> (output_file', Some e)
      | (output_file', None) \<Rightarrow>
          process_files h repo_path ignore_list output_file' exclude_large_files root files)"

fun process_walk ::
  "host \<Rightarrow> string \<Rightarrow> string list \<Rightarrow> string \<Rightarrow> bool \<Rightarrow> (string \<times> string list \<times> string list) list
     \<Rightarrow> string \<times> error option" where
  "process_walk h repo_path ignore_list output_file exclude_large_files [] = (output_file, None)"
| "process_walk h repo_path ignore_list output_file exclude_large_files ((root, dirs, files) # triples) =
     (case process_files h repo_path ignore_list output_file exclude_large_files root files of
        (output_file', Some e) \<Rightarrow> (output_file', Some e)
      | (output_file', None) \<Rightarrow>
          process_walk h repo_path ignore_list output_file' exclude_large_files triples)"

definition process_repository ::
  "host \<Rightarrow> string \<Rightarrow> string list \<Rightarrow> string \<Rightarrow> bool \<Rightarrow> bool \<Rightarrow> string \<times> error option" where
  "process_repository h repo_path ignore_list output_file verbose exclude_large_files =
     process_walk h repo_path ignore_list output_file exclude_large_files (os_walk h repo_path)"

text \<open>
  The vocabulary of the claims: the files of a walk in the order the loops meet them,
  whether a file is one the loop body writes, and the record of a file.
\<close>

definition walk_files :: "host \<Rightarrow> string \<Rightarrow> string list" where
  "walk_files h repo_path =
     concat (map (\<lambda>(root, dirs, files). map (path_join h root) files) (os_walk h repo_path))"

definition oversized :: "host \<Rightarrow> string \<Rightarrow> bool" where
  "oversized h file_path =
     (case stat_size h file_path of None \<Rightarrow> False | Some n \<Rightarrow> n > 1000000)"

definition included :: "host \<Rightarrow> string \<Rightarrow> string list \<Rightarrow> bool \<Rightarrow> string \<Rightarrow> bool" where
  "included h repo_path ignore_list exclude_large_files file_path =
     (\<not> (exclude_large_files \<and> oversized h file_path) \<and>
      \<not> should_ignore (fnmatch h) (path_relpath h file_path repo_path) ignore_list)"

definition record_of :: "host \<Rightarrow> string \<Rightarrow> string \<Rightarrow> string" where
  "record_of h repo_path file_path =
     ''----'' @ [newline] @ path_relpath h file_path repo_path @ [newline]
       @ (case read_text h file_path of None \<Rightarrow> [] | Some contents \<Rightarrow> contents) @ [newline]"

definition recorded_files :: "host \<Rightarrow> string \<Rightarrow> string list \<Rightarrow> bool \<Rightarrow> string list" where
  "recorded_files h repo_path ignore_list exclude_large_files =
     filter (included h repo_path ignore_list exclude_large_files) (walk_files h repo_path)"

text \<open>\<open>readable h fps\<close>: the host can open and read every file of \<open>fps\<close>.\<close>

definition readable :: "host \<Rightarrow> string list \<Rightarrow> bool" where
  "readable h fps = (\<forall>fp \<in> set fps. read_text h fp \<noteq> None)"

section \<open>The output splitter\<close>

text \<open>
  \<^verbatim>\<open>
  def split_file(file_path):
      with open(file_path, 'r') as input_file:
          chunks = []
          chunk = ""
          chunk_size = 0
          for line in input_file:
              if line.startswith("-" * 4):
                  if chunk_size > SPLIT_SIZE:
                      chunks.append(chunk)
                      chunk = ""
                      chunk_size = 0
                  chunk += line
                  chunk_size += len(line)
              else:
                  chunk += line
                  chunk_size += len(line)
          chunks.append(chunk)
      for i, chunk in enumerate(chunks):
          with open(f"{file_path[:-4]}_{i}.txt", 'w') as output_file:
              output_file.write(chunk)
  \<close>
  \<open>split_file\<close> takes the platform, the path and the contents of the input file and
  returns the files it writes, name and contents, in the order it writes them. The loop
  runs over the lines of the text read; \<open>split_chunks\<close> is the list \<open>chunks\<close> after
  line 129, for the text read.
\<close>

definition SPLIT_SIZE :: nat where
  "SPLIT_SIZE = 4000000"

fun split_loop :: "string list \<Rightarrow> string list \<Rightarrow> string \<Rightarrow> nat \<Rightarrow> string list \<times> string \<times> nat" where
  "split_loop [] chunks chunk chunk_size = (chunks, chunk, chunk_size)"
| "split_loop (line # rest) chunks chunk chunk_size =
     (if startswith line delimiter then
        (if chunk_size > SPLIT_SIZE
         then split_loop rest (chunks @ [chunk]) ([] @ line) (0 + length line)
         else split_loop rest chunks (chunk @ line) (chunk_size + length line))
      else split_loop rest chunks (chunk @ line) (chunk_size + length line))"

definition split_chunks :: "string \<Rightarrow> string list" where
  "split_chunks input_file =
     (case split_loop (iter_lines input_file) [] [] 0 of
        (chunks, chunk, chunk_size) \<Rightarrow> chunks @ [chunk])"

text \<open>\<open>str(i)\<close> for a natural number, and the name of chunk \<open>i\<close>.\<close>

fun str_nat :: "nat \<Rightarrow> string" where
  "str_nat n =
     (if n < 10 then [''0123456789'' ! n]
      else str_nat (n div 10) @ [''0123456789'' ! (n mod 10)])"

definition chunk_name :: "string \<Rightarrow> nat \<Rightarrow> string" where
  "chunk_name file_path i = take (length file_path - 4) file_path @ ''_'' @ str_nat i @ ''.txt''"

definition split_file :: "bool \<Rightarrow> string \<Rightarrow> string \<Rightarrow> (string \<times> string) list" where
  "split_file on_win32 file_path input_file =
     map (\<lambda>(i, chunk). (chunk_name file_path i, write_newlines on_win32 chunk))
       (enumerate 0 (split_chunks (read_newlines input_file)))"

section \<open>The command line\<close>

text \<open>
  \<^verbatim>\<open>
  if len(sys.argv) < 2:
      print("""Usage: ...""")
      sys.exit(1)
  repo_path = sys.argv[1]
  ignore_file_path = os.path.join(repo_path, ".gptignore")
  if sys.platform == "win32":
      ignore_file_path = ignore_file_path.replace("/", "\\")
  if not os.path.exists(ignore_file_path):
      HERE = os.path.dirname(os.path.abspath(__file__))
      ignore_file_path = os.path.join(HERE, ".gptignore")
  preamble_file = None
  if "-p" in sys.argv:
      preamble_file = sys.argv[sys.argv.index("-p") + 1]
  output_file_path = 'output.txt'
  if "-o" in sys.argv:
      output_file_path = sys.argv[sys.argv.index("-o") + 1]
  \<close>
  \<open>xs.index(x)\<close> is the position of the first \<open>x\<close> and raises \<open>ValueError\<close> when there
  is none; \<open>xs[i]\<close> raises \<open>IndexError\<close> from \<open>len(xs)\<close> on. \<open>sys.exit(1)\<close> is
  \<open>SystemExit 1\<close>; the usage text goes to the console and is left out. Nothing is
  written before the arguments are read.
\<close>

fun list_index :: "string list \<Rightarrow> string \<Rightarrow> error + nat" where
  "list_index [] x = Inl ValueError"
| "list_index (y # ys) x =
     (if y = x then Inr 0
      else (case list_index ys x of Inl e \<Rightarrow> Inl e | Inr i \<Rightarrow> Inr (Suc i)))"

definition item :: "string list \<Rightarrow> nat \<Rightarrow> error + string" where
  "item xs i = (if i < length xs then Inr (xs ! i) else Inl IndexError)"

definition value_after :: "string list \<Rightarrow> string \<Rightarrow> error + string" where
  "value_after argv flag =
     (case list_index argv flag of Inl e \<Rightarrow> Inl e | Inr i \<Rightarrow> item argv (i + 1))"

record settings =
  s_repo_path :: string
  s_ignore_file_path :: string
  s_preamble_file :: "string option"
  s_output_file_path :: string

definition find_ignore_file :: "host \<Rightarrow> string \<Rightarrow> string" where
  "find_ignore_file h repo =
     (let p = path_join h repo ''.gptignore'';
          p = (if win32 h then slash_to_backslash p else p)
      in if \<not> path_exists h p then path_join h (here h) ''.gptignore'' else p)"

definition main_args :: "host \<Rightarrow> string list \<Rightarrow> error + settings" where
  "main_args h argv =
     (if length argv < 2 then Inl (SystemExit 1)
      else
        let repo = argv ! 1;
            ignore_file = find_ignore_file h repo
        in case (if ''-p'' \<in> set argv
                 then (case value_after argv ''-p'' of Inl e \<Rightarrow> Inl e | Inr v \<Rightarrow> Inr (Some v))
                 else Inr None) of
             Inl e \<Rightarrow> Inl e
           | Inr preamble \<Rightarrow>
               (case (if ''-o'' \<in> set argv then value_after argv ''-o'' else Inr ''output.txt'') of
                  Inl e \<Rightarrow> Inl e
                | Inr output \<Rightarrow>
                    Inr \<lparr>s_repo_path = repo, s_ignore_file_path = ignore_file,
                         s_preamble_file = preamble, s_output_file_path = output\<rparr>))"

text \<open>
  The rest of the script, after the arguments:
  \<^verbatim>\<open>
  if os.path.exists(ignore_file_path):
      ignore_list = get_ignore_list(ignore_file_path)
  else:
      ignore_list = []
  if "-l" in sys.argv:
      tree(Path(repo_path), level=3, limit_to_directories=False, ignore_files=ignore_list)
  if "-v" in sys.argv: verbose = True
  if "-x" in sys.argv: exclude_large_files = True
  if "-s" in sys.argv: split_output = True
  with open(output_file_path, 'w') as output_file:
      if preamble_file:
          with open(preamble_file, 'r') as pf:
              preamble_text = pf.read()
              output_file.write(f"{preamble_text}\n")
      else:
          output_file.write("The following text is a Git repository ...\n")
      process_repository(repo_path, ignore_list, output_file, verbose, exclude_large_files)
  with open(output_file_path, 'a') as output_file:
      output_file.write("--END--")
  if split_output:
      split_file(output_file_path)
  \<close>
  \<open>main\<close> returns the files written, name and contents, in the order they are first written,
  and the exception that ended the run, if any. The console is left out: \<open>tree\<close> and the
  messages only print. An empty preamble path counts as none (\<open>if preamble_file\<close>).
  Opening a file for writing is taken to succeed; the host's functions see the file
  system as it was when the run began.
\<close>

definition default_preamble :: string where
  "default_preamble = ''The following text is a Git repository with code. The structure of the text are sections that begin with ----, followed by a single line containing the file path and file name, followed by a variable amount of lines containing the file contents. The text representing the Git repository ends when the symbols --END-- are encounted. Any further text beyond --END-- are meant to be interpreted as instructions using the aforementioned Git repository as context.\<newline>''"

definition load_ignore_list :: "host \<Rightarrow> string \<Rightarrow> error + string list" where
  "load_ignore_list h path =
     (if path_exists h path then
        (case read_strict h path of
           Inl e \<Rightarrow> Inl e
         | Inr ignore_file \<Rightarrow> Inr (get_ignore_list (win32 h) ignore_file))
      else Inr [])"

definition load_preamble :: "host \<Rightarrow> string option \<Rightarrow> error + string" where
  "load_preamble h preamble =
     (case preamble of
        Some path \<Rightarrow>
          if path \<noteq> [] then
            (case read_strict h path of
               Inl e \<Rightarrow> Inl e
             | Inr preamble_text \<Rightarrow> Inr (preamble_text @ [newline]))
          else Inr default_preamble
      | None \<Rightarrow> Inr default_preamble)"

definition main_run :: "host \<Rightarrow> string list \<Rightarrow> settings \<Rightarrow> (string \<times> string) list \<times> error option" where
  "main_run h argv s =
     (case load_ignore_list h (s_ignore_file_path s) of
        Inl e \<Rightarrow> ([], Some e)
      | Inr ignore_list \<Rightarrow>
          (case (if ''-l'' \<in> set argv then tree_error h (s_repo_path s) ignore_list else None) of
             Some e \<Rightarrow> ([], Some e)
           | None \<Rightarrow>
               let verbose = (''-v'' \<in> set argv);
                   exclude_large_files = (''-x'' \<in> set argv);
                   split_output = (''-s'' \<in> set argv)
               in case load_preamble h (s_preamble_file s) of
                    Inl e \<Rightarrow> ([(s_output_file_path s, [])], Some e)
                  | Inr preamble \<Rightarrow>
                      (case process_repository h (s_repo_path s) ignore_list preamble verbose
                              exclude_large_files of
                         (output_file, Some e) \<Rightarrow>
                           ([(s_output_file_path s, write_newlines (win32 h) output_file)], Some e)
                       | (output_file, None) \<Rightarrow>
                           let stored = write_newlines (win32 h) (output_file @ ''--END--'') in
                           if split_output
                           then ((s_output_file_path s, stored)
                                   # split_file (win32 h) (s_output_file_path s) stored, None)
                           else ([(s_output_file_path s, stored)], None))))"

definition main :: "host \<Rightarrow> string list \<Rightarrow> (string \<times> string) list \<times> error option" where
  "main h argv =
     (case main_args h argv of
        Inl e \<Rightarrow> ([], Some e)
      | Inr s \<Rightarrow> main_run h argv s)"

section \<open>Chunk boundaries and sample files\<close>

text \<open>
  \<open>cut_at_delimiters ls cs\<close>: every one of the chunks \<open>cs\<close> ends where a line of \<open>ls\<close>
  begins, and that line begins with the delimiter.
\<close>

definition cut_at_delimiters :: "string list \<Rightarrow> string list \<Rightarrow> bool" where
  "cut_at_delimiters ls cs =
     (\<forall>k < length cs. \<exists>m < length ls.
        concat (take (Suc k) cs) = concat (take m ls) \<and> startswith (ls ! m) delimiter)"

text \<open>
  Files too long to write out: \<open>padding n\<close> is a run of \<open>n\<close> letters, standing for file
  contents. \<open>two_records\<close> is an output file with two records of three and two million
  characters.
  \<open>hyphen_path_file\<close> is an output file with the preamble \<open>p\<close>, a record for \<open>a.txt\<close> and
  a record for a file named \<open>----x\<close>. \<open>big_then_small\<close> is an output file with a record of
  more than four million characters and a short one.
\<close>

definition padding :: "nat \<Rightarrow> string" where
  "padding n = replicate n CHR ''x''"

definition two_records :: string where
  "two_records = ''p\<newline>----\<newline>a.txt\<newline>'' @ padding 3000000 @ ''\<newline>----\<newline>b.txt\<newline>''
     @ padding 2000000 @ ''\<newline>--END--''"

definition hyphen_path_file :: string where
  "hyphen_path_file = ''p\<newline>----\<newline>a.txt\<newline>'' @ padding 3999986
     @ ''\<newline>----\<newline>----x\<newline>c\<newline>--END--''"

definition big_then_small :: string where
  "big_then_small = ''p\<newline>----\<newline>a.txt\<newline>'' @ padding 4000000
     @ ''\<newline>----\<newline>b.txt\<newline>hi\<newline>--END--''"

text \<open>
  A host for closed instances: a repository \<open>repo\<close> with four files and a directory
  \<open>src\<close> holding one more; paths are joined with a slash, and the path relative to the
  repository drops the repository's name and the slash after it. \<open>hyphen_host\<close> is a
  host whose repository holds a long file \<open>a.txt\<close> and a file named \<open>----x\<close>.
\<close>

definition demo_host :: host where
  "demo_host =
     \<lparr>win32 = False,
      fnmatch = wildcard,
      os_walk = (\<lambda>top. if top = ''repo''
                  then [(''repo'', [''src''], [''.gptignore'', ''a.txt'', ''b.txt'', ''big.bin'']),
                        (''repo/src'', [], [''main.py''])]
                  else []),
      path_join = (\<lambda>a b. a @ ''/'' @ b),
      path_relpath = (\<lambda>p start. drop (length start + 1) p),
      stat_size = map_of [(''repo/.gptignore'', 6), (''repo/a.txt'', 5), (''repo/b.txt'', 6),
                          (''repo/big.bin'', 2000000), (''repo/src/main.py'', 9),
                          (''pre.txt'', 1)],
      read_text = map_of [(''repo/.gptignore'', ''b.txt\<newline>''), (''repo/a.txt'', ''hello''),
                          (''repo/b.txt'', ''secret''), (''repo/big.bin'', padding 2000000),
                          (''repo/src/main.py'', ''print(1)\<newline>''), (''pre.txt'', ''p'')],
      read_strict = (\<lambda>path. case map_of [(''repo/.gptignore'', ''b.txt\<newline>''),
                                            (''pre.txt'', ''p'')] path of
                              None \<Rightarrow> Inl OSError | Some t \<Rightarrow> Inr t),
      tree_error = (\<lambda>top ignore_files. None),
      here = ''/opt/tool''\<rparr>"

definition hyphen_host :: host where
  "hyphen_host =
     \<lparr>win32 = False,
      fnmatch = wildcard,
      os_walk = (\<lambda>top. if top = ''repo'' then [(''repo'', [], [''a.txt'', ''----x''])] else []),
      path_join = (\<lambda>a b. a @ ''/'' @ b),
      path_relpath = (\<lambda>p start. drop (length start + 1) p),
      stat_size = map_of [(''repo/a.txt'', 3999986), (''repo/----x'', 1), (''pre.txt'', 1)],
      read_text = map_of [(''repo/a.txt'', padding 3999986), (''repo/----x'', ''c''),
                          (''pre.txt'', ''p'')],
      read_strict = (\<lambda>path. case map_of [(''pre.txt'', ''p'')] path of
                              None \<Rightarrow> Inl OSError | Some t \<Rightarrow> Inr t),
      tree_error = (\<lambda>top ignore_files. None),
      here = ''/opt/tool''\<rparr>"

section \<open>Properties of the ignore matcher\<close>








section \<open>Properties of the output splitter\<close>

lemma lines_from_concat: "concat (lines_from cur s) = cur @ s"
  by (induction s arbitrary: cur) auto

lemma iter_lines_concat: "concat (iter_lines s) = s"
  by (simp add: iter_lines_def lines_from_concat)

lemma lines_from_nonempty: "l \<in> set (lines_from cur s) \<Longrightarrow> l \<noteq> []"
  by (induction s arbitrary: cur) (auto split: if_splits)

lemma iter_lines_nonempty: "l \<in> set (iter_lines s) \<Longrightarrow> l \<noteq> []"
  unfolding iter_lines_def by (rule lines_from_nonempty)

lemma length_le_byte_size: "length s \<le> byte_size s"
  by (induction s) (auto simp: byte_size_def utf8_width_def)

lemma split_loop_concat:
  "split_loop ls cs c n = (cs', c', n') \<Longrightarrow> concat cs' @ c' = concat cs @ c @ concat ls"
  by (induction ls arbitrary: cs c n) (auto split: if_splits)

lemma split_loop_size:
  "split_loop ls cs c (length c) = (cs', c', n') \<Longrightarrow> n' = length c'"
proof (induction ls arbitrary: cs c)
  case Nil
  then show ?case by auto
next
  case (Cons line rest)
  have len: "length c + length line = length (c @ line)" by simp
  show ?case
  proof (cases "startswith line delimiter \<and> SPLIT_SIZE < length c")
    case True
    with Cons.prems have "split_loop rest (cs @ [c]) line (length line) = (cs', c', n')"
      by simp
    then show ?thesis by (rule Cons.IH)
  next
    case False
    with Cons.prems have "split_loop rest cs (c @ line) (length c + length line) = (cs', c', n')"
      by (auto split: if_splits)
    then have "split_loop rest cs (c @ line) (length (c @ line)) = (cs', c', n')"
      by (simp only: len)
    then show ?thesis by (rule Cons.IH)
  qed
qed

lemma split_loop_big:
  "split_loop ls cs c (length c) = (cs', c', n') \<Longrightarrow>
   \<forall>x \<in> set cs. SPLIT_SIZE < length x \<Longrightarrow> \<forall>x \<in> set cs'. SPLIT_SIZE < length x"
proof (induction ls arbitrary: cs c)
  case Nil
  then show ?case by simp
next
  case (Cons line rest)
  have len: "length c + length line = length (c @ line)" by simp
  show ?case
  proof (cases "startswith line delimiter \<and> SPLIT_SIZE < length c")
    case True
    with Cons.prems have run: "split_loop rest (cs @ [c]) line (length line) = (cs', c', n')"
      by simp
    from True Cons.prems have "\<forall>x \<in> set (cs @ [c]). SPLIT_SIZE < length x"
      by simp
    with run show ?thesis by (rule Cons.IH)
  next
    case False
    with Cons.prems have "split_loop rest cs (c @ line) (length c + length line) = (cs', c', n')"
      by (auto split: if_splits)
    then have "split_loop rest cs (c @ line) (length (c @ line)) = (cs', c', n')"
      by (simp only: len)
    then show ?thesis using Cons.prems(2) by (rule Cons.IH)
  qed
qed

lemma split_chunks_concat: "concat (split_chunks s) = s"
proof -
  obtain cs c n where run: "split_loop (iter_lines s) [] [] 0 = (cs, c, n)"
    by (metis prod_cases3)
  from split_loop_concat [OF run] have "concat cs @ c = s"
    by (simp add: iter_lines_concat)
  with run show ?thesis by (simp add: split_chunks_def)
qed

lemma split_chunks_big:
  assumes "Suc k < length (split_chunks s)"
  shows "SPLIT_SIZE < length (split_chunks s ! k)"
proof -
  obtain cs c n where run: "split_loop (iter_lines s) [] [] 0 = (cs, c, n)"
    by (metis prod_cases3)
  then have chunks: "split_chunks s = cs @ [c]" by (simp add: split_chunks_def)
  with assms have k: "k < length cs" by simp
  from run have "split_loop (iter_lines s) [] [] (length ([] :: string)) = (cs, c, n)" by simp
  from split_loop_big [OF this] have "\<forall>x \<in> set cs. SPLIT_SIZE < length x" by simp
  with k have "SPLIT_SIZE < length (cs ! k)" by simp
  with k chunks show ?thesis by (simp add: nth_append)
qed

lemma split_chunks_nonempty: "split_chunks s \<noteq> []"
  by (simp add: split_chunks_def split: prod.splits)

lemma read_newlines_id: "carriage_return \<notin> set s \<Longrightarrow> read_newlines s = s"
  by (induction s rule: read_newlines.induct) auto

lemma read_newlines_no_cr: "carriage_return \<notin> set (read_newlines s)"
  by (induction s rule: read_newlines.induct) (auto simp: carriage_return_def newline_def)

lemma length_read_newlines: "length (read_newlines s) \<le> length s"
  by (induction s rule: read_newlines.induct) auto

lemma write_read_newlines_crlf:
  "write_newlines True (read_newlines s) = s \<longleftrightarrow> crlf_only s"
  by (induction s rule: read_newlines.induct)
    (auto simp: write_newlines_def carriage_return_def newline_def)

lemma write_newlines_False: "write_newlines False s = s"
  by (simp add: write_newlines_def)

lemma write_newlines_Nil: "write_newlines w [] = []"
  by (simp add: write_newlines_def)

lemma write_newlines_append:
  "write_newlines w (a @ b) = write_newlines w a @ write_newlines w b"
  by (simp add: write_newlines_def)

lemma write_newlines_concat:
  "write_newlines w (concat xs) = concat (map (write_newlines w) xs)"
  by (induction xs) (simp_all add: write_newlines_Nil write_newlines_append)

lemma length_write_newlines: "length s \<le> length (write_newlines w s)"
  by (induction s) (auto simp: write_newlines_def)

lemma byte_size_write_newlines: "byte_size s \<le> byte_size (write_newlines w s)"
  by (induction s) (auto simp: write_newlines_def byte_size_def)

lemma length_split_file: "length (split_file w p s) = length (split_chunks (read_newlines s))"
  by (simp add: split_file_def)

lemma map_snd_split_file:
  "map snd (split_file w p s) = map (write_newlines w) (split_chunks (read_newlines s))"
proof -
  have "map snd (split_file w p s) =
      map (write_newlines w \<circ> snd) (enumerate 0 (split_chunks (read_newlines s)))"
    by (simp add: split_file_def case_prod_unfold comp_def)
  also have "\<dots> = map (write_newlines w) (map snd (enumerate 0 (split_chunks (read_newlines s))))"
    by (simp only: map_map)
  finally show ?thesis by simp
qed

lemma map_fst_split_file:
  "map fst (split_file w p s) = map (chunk_name p) [0..<length (split_chunks (read_newlines s))]"
proof -
  have "map fst (split_file w p s) =
      map (chunk_name p \<circ> fst) (enumerate 0 (split_chunks (read_newlines s)))"
    by (simp add: split_file_def case_prod_unfold comp_def)
  also have "\<dots> = map (chunk_name p) (map fst (enumerate 0 (split_chunks (read_newlines s))))"
    by (simp only: map_map)
  finally show ?thesis by simp
qed

lemma concat_split_file:
  "concat (map snd (split_file w p s)) = write_newlines w (read_newlines s)"
  by (simp add: map_snd_split_file write_newlines_concat [symmetric] split_chunks_concat)

lemma cut_at_delimiters_extend:
  assumes "cut_at_delimiters ls cs"
  shows "cut_at_delimiters (ls @ ms) cs"
  unfolding cut_at_delimiters_def
proof (intro allI impI)
  fix k assume "k < length cs"
  with assms obtain m where m: "m < length ls"
      "concat (take (Suc k) cs) = concat (take m ls)" "startswith (ls ! m) delimiter"
    unfolding cut_at_delimiters_def by blast
  then have "m < length (ls @ ms) \<and> concat (take (Suc k) cs) = concat (take m (ls @ ms))
      \<and> startswith ((ls @ ms) ! m) delimiter"
    by (simp add: nth_append)
  then show "\<exists>m < length (ls @ ms). concat (take (Suc k) cs) = concat (take m (ls @ ms))
      \<and> startswith ((ls @ ms) ! m) delimiter"
    by blast
qed

lemma cut_at_delimiters_snoc:
  assumes cuts: "cut_at_delimiters ls cs"
    and all: "concat cs @ c = concat ls"
    and line: "startswith line delimiter"
  shows "cut_at_delimiters (ls @ [line]) (cs @ [c])"
  unfolding cut_at_delimiters_def
proof (intro allI impI)
  fix k assume k: "k < length (cs @ [c])"
  let ?ls = "ls @ [line]"
  show "\<exists>m < length ?ls. concat (take (Suc k) (cs @ [c])) = concat (take m ?ls)
      \<and> startswith (?ls ! m) delimiter"
  proof (cases "k < length cs")
    case True
    from cut_at_delimiters_extend [OF cuts, of "[line]"] True
    obtain m where "m < length ?ls" "concat (take (Suc k) cs) = concat (take m ?ls)"
        "startswith (?ls ! m) delimiter"
      unfolding cut_at_delimiters_def by blast
    with True show ?thesis by auto
  next
    case False
    with k have "k = length cs" by simp
    with all line have "length ls < length ?ls \<and>
        concat (take (Suc k) (cs @ [c])) = concat (take (length ls) ?ls) \<and>
        startswith (?ls ! length ls) delimiter"
      by simp
    then show ?thesis by blast
  qed
qed

lemma split_loop_cuts:
  "split_loop rest cs c n = (cs', c', n') \<Longrightarrow> concat cs @ c = concat ls \<Longrightarrow>
   cut_at_delimiters ls cs \<Longrightarrow> cut_at_delimiters (ls @ rest) cs'"
proof (induction rest arbitrary: cs c n ls)
  case Nil
  then show ?case by simp
next
  case (Cons line rest)
  have app: "ls @ line # rest = (ls @ [line]) @ rest" by simp
  show ?case
  proof (cases "startswith line delimiter \<and> SPLIT_SIZE < n")
    case True
    with Cons.prems have run: "split_loop rest (cs @ [c]) line (length line) = (cs', c', n')"
      by simp
    from Cons.prems(2) have all: "concat (cs @ [c]) @ line = concat (ls @ [line])" by simp
    from Cons.prems True have "cut_at_delimiters (ls @ [line]) (cs @ [c])"
      by (simp add: cut_at_delimiters_snoc)
    with run all have "cut_at_delimiters ((ls @ [line]) @ rest) cs'" by (rule Cons.IH)
    then show ?thesis by (simp only: app)
  next
    case False
    with Cons.prems have run: "split_loop rest cs (c @ line) (n + length line) = (cs', c', n')"
      by (auto split: if_splits)
    from Cons.prems(2) have all: "concat cs @ (c @ line) = concat (ls @ [line])" by simp
    from Cons.prems(3) have "cut_at_delimiters (ls @ [line]) cs"
      by (rule cut_at_delimiters_extend)
    with run all have "cut_at_delimiters ((ls @ [line]) @ rest) cs'" by (rule Cons.IH)
    then show ?thesis by (simp only: app)
  qed
qed

lemma split_chunks_cuts:
  assumes "Suc k < length (split_chunks s)"
  shows "\<exists>m < length (iter_lines s).
           concat (take (Suc k) (split_chunks s)) = concat (take m (iter_lines s)) \<and>
           startswith (iter_lines s ! m) delimiter"
proof -
  obtain cs c n where run: "split_loop (iter_lines s) [] [] 0 = (cs, c, n)"
    by (metis prod_cases3)
  then have chunks: "split_chunks s = cs @ [c]" by (simp add: split_chunks_def)
  have "cut_at_delimiters [] []" by (simp add: cut_at_delimiters_def)
  with split_loop_cuts [OF run, of "[]"] have "cut_at_delimiters (iter_lines s) cs" by simp
  moreover from assms chunks have "k < length cs" by simp
  ultimately obtain m where "m < length (iter_lines s)"
      "concat (take (Suc k) cs) = concat (take m (iter_lines s))"
      "startswith (iter_lines s ! m) delimiter"
    unfolding cut_at_delimiters_def by blast
  with chunks \<open>k < length cs\<close> show ?thesis by auto
qed

lemma length_concat_take_mono:
  "\<forall>l \<in> set ls. l \<noteq> [] \<Longrightarrow> i < j \<Longrightarrow> j \<le> length ls \<Longrightarrow>
   length (concat (take i ls)) < length (concat (take j ls))"
proof (induction ls arbitrary: i j)
  case Nil
  then show ?case by simp
next
  case (Cons l ls)
  from Cons.prems obtain j' where j: "j = Suc j'" by (cases j) auto
  show ?case
  proof (cases i)
    case 0
    with Cons.prems j show ?thesis by simp
  next
    case (Suc i')
    with Cons.prems j have "length (concat (take i' ls)) < length (concat (take j' ls))"
      by (intro Cons.IH) auto
    with Suc j show ?thesis by simp
  qed
qed

lemma concat_take_inj:
  assumes ne: "\<forall>l \<in> set ls. l \<noteq> []"
    and "i \<le> length ls" "j \<le> length ls"
    and eq: "concat (take i ls) = concat (take j ls)"
  shows "i = j"
proof (rule ccontr)
  assume "i \<noteq> j"
  then consider "i < j" | "j < i" by linarith
  then show False
  proof cases
    case 1
    from length_concat_take_mono [OF ne 1 \<open>j \<le> length ls\<close>] eq show False by simp
  next
    case 2
    from length_concat_take_mono [OF ne 2 \<open>i \<le> length ls\<close>] eq show False by simp
  qed
qed

lemma delimiter_eq: "delimiter = ''----''"
  by (simp add: delimiter_def numeral_eq_Suc)

lemma length_padding: "length (padding n) = n"
  by (simp add: padding_def)

lemma byte_size_append: "byte_size (a @ b) = byte_size a + byte_size b"
  by (simp add: byte_size_def)

lemma byte_size_padding: "byte_size (padding n) = n"
  by (induction n) (simp_all add: padding_def byte_size_def utf8_width_def)

lemma lines_from_padding: "lines_from cur (padding n @ s) = lines_from (cur @ padding n) s"
proof (induction n arbitrary: cur)
  case 0
  then show ?case by (simp add: padding_def)
next
  case (Suc n)
  have "padding (Suc n) = CHR ''x'' # padding n" by (simp add: padding_def)
  moreover have "cur @ CHR ''x'' # padding n = (cur @ ''x'') @ padding n" by simp
  ultimately show ?case using Suc [of "cur @ ''x''"] by (simp add: newline_def)
qed

lemma startswith_padding: "0 < n \<Longrightarrow> \<not> startswith (padding n @ s) ''----''"
  by (cases n) (simp_all add: startswith_def padding_def)

lemma iter_lines_two_records:
  "iter_lines two_records =
     [''p\<newline>'', ''----\<newline>'', ''a.txt\<newline>'', padding 3000000 @ ''\<newline>'', ''----\<newline>'', ''b.txt\<newline>'',
      padding 2000000 @ ''\<newline>'', ''--END--'']"
  by (simp add: iter_lines_def two_records_def lines_from_padding newline_def)

lemma split_chunks_two_records: "split_chunks two_records = [two_records]"
  unfolding split_chunks_def iter_lines_two_records
  by (simp add: delimiter_eq startswith_def [of "_ # _"] startswith_padding length_padding
      SPLIT_SIZE_def two_records_def)

lemma iter_lines_hyphen_path_file:
  "iter_lines hyphen_path_file =
     [''p\<newline>'', ''----\<newline>'', ''a.txt\<newline>'', padding 3999986 @ ''\<newline>'', ''----\<newline>'',
      ''----x\<newline>'', ''c\<newline>'', ''--END--'']"
  by (simp add: iter_lines_def hyphen_path_file_def lines_from_padding newline_def)

lemma split_chunks_hyphen_path_file:
  "split_chunks hyphen_path_file =
     [''p\<newline>----\<newline>a.txt\<newline>'' @ padding 3999986 @ ''\<newline>----\<newline>'',
      ''----x\<newline>c\<newline>--END--'']"
  unfolding split_chunks_def iter_lines_hyphen_path_file
  by (simp add: delimiter_eq startswith_def [of "_ # _"] startswith_padding length_padding
      SPLIT_SIZE_def)

lemma iter_lines_big_then_small:
  "iter_lines big_then_small =
     [''p\<newline>'', ''----\<newline>'', ''a.txt\<newline>'', padding 4000000 @ ''\<newline>'', ''----\<newline>'', ''b.txt\<newline>'',
      ''hi\<newline>'', ''--END--'']"
  by (simp add: iter_lines_def big_then_small_def lines_from_padding newline_def)

lemma split_chunks_big_then_small:
  "split_chunks big_then_small =
     [''p\<newline>----\<newline>a.txt\<newline>'' @ padding 4000000 @ ''\<newline>'', ''----\<newline>b.txt\<newline>hi\<newline>--END--'']"
  unfolding split_chunks_def iter_lines_big_then_small
  by (simp add: delimiter_eq startswith_def [of "_ # _"] startswith_padding length_padding
      SPLIT_SIZE_def)

lemma chunk_name_0: "chunk_name ''output.txt'' 0 = ''output_0.txt''"
  by (simp add: chunk_name_def)

lemma chunk_name_1: "chunk_name ''output.txt'' 1 = ''output_1.txt''"
  by (simp add: chunk_name_def)

lemma byte_size_Nil: "byte_size [] = 0"
  by (simp add: byte_size_def)

lemma byte_size_Cons: "byte_size (c # s) = utf8_width c + byte_size s"
  by (simp add: byte_size_def)

lemma byte_size_two_records: "byte_size two_records = 5000033"
  by (simp add: two_records_def byte_size_append byte_size_padding byte_size_Cons byte_size_Nil
      utf8_width_def)

lemma split_chunks_small:
  assumes "length s \<le> SPLIT_SIZE"
  shows "split_chunks s = [s]"
proof -
  have "\<not> Suc 0 < length (split_chunks s)"
  proof
    assume two: "Suc 0 < length (split_chunks s)"
    then have big: "SPLIT_SIZE < length (split_chunks s ! 0)" by (rule split_chunks_big)
    from two obtain c cs where "split_chunks s = c # cs" by (cases "split_chunks s") auto
    with big split_chunks_concat [of s] have "SPLIT_SIZE < length s"
      by (metis concat.simps(2) length_append nth_Cons_0 trans_less_add1)
    with assms show False by simp
  qed
  then obtain c where "split_chunks s = [c]"
    using split_chunks_nonempty [of s] by (cases "split_chunks s") (auto simp: Suc_lessI)
  with split_chunks_concat [of s] show ?thesis by simp
qed

lemma cr_notin_padding: "carriage_return \<notin> set (padding n)"
  by (simp add: padding_def carriage_return_def)

lemma read_newlines_two_records: "read_newlines two_records = two_records"
  by (rule read_newlines_id) (simp add: two_records_def cr_notin_padding, simp add: carriage_return_def)

lemma read_newlines_hyphen_path_file: "read_newlines hyphen_path_file = hyphen_path_file"
  by (rule read_newlines_id)
    (simp add: hyphen_path_file_def cr_notin_padding, simp add: carriage_return_def)

lemma read_newlines_big_then_small: "read_newlines big_then_small = big_then_small"
  by (rule read_newlines_id)
    (simp add: big_then_small_def cr_notin_padding, simp add: carriage_return_def)

lemma length_write_concat_take_mono:
  "\<forall>l \<in> set ls. l \<noteq> [] \<Longrightarrow> i < j \<Longrightarrow> j \<le> length ls \<Longrightarrow>
   length (write_newlines w (concat (take i ls))) < length (write_newlines w (concat (take j ls)))"
proof (induction ls arbitrary: i j)
  case Nil
  then show ?case by simp
next
  case (Cons l ls)
  from Cons.prems obtain j' where j: "j = Suc j'" by (cases j) auto
  from Cons.prems have "l \<noteq> []" by simp
  then have "0 < length l" by simp
  also have "\<dots> \<le> length (write_newlines w l)" by (rule length_write_newlines)
  finally have pos: "0 < length (write_newlines w l)" .
  show ?case
  proof (cases i)
    case 0
    with j pos show ?thesis by (simp add: write_newlines_append write_newlines_Nil)
  next
    case (Suc i')
    with Cons.prems j
    have "length (write_newlines w (concat (take i' ls)))
        < length (write_newlines w (concat (take j' ls)))"
      by (intro Cons.IH) auto
    with Suc j show ?thesis by (simp add: write_newlines_append)
  qed
qed

lemma write_concat_take_inj:
  assumes ne: "\<forall>l \<in> set ls. l \<noteq> []"
    and "i \<le> length ls" "j \<le> length ls"
    and eq: "write_newlines w (concat (take i ls)) = write_newlines w (concat (take j ls))"
  shows "i = j"
proof (rule ccontr)
  assume "i \<noteq> j"
  then consider "i < j" | "j < i" by linarith
  then show False
  proof cases
    case 1
    from length_write_concat_take_mono [OF ne 1 \<open>j \<le> length ls\<close>, of w] eq show False by simp
  next
    case 2
    from length_write_concat_take_mono [OF ne 2 \<open>i \<le> length ls\<close>, of w] eq show False by simp
  qed
qed

lemma split_file_cuts:
  assumes "Suc k < length (split_file w p s)"
  shows "\<exists>m < length (iter_lines (read_newlines s)).
           concat (take (Suc k) (map snd (split_file w p s)))
             = write_newlines w (concat (take m (iter_lines (read_newlines s)))) \<and>
           startswith (iter_lines (read_newlines s) ! m) ''----''"
proof -
  let ?t = "read_newlines s"
  from assms have "Suc k < length (split_chunks ?t)" by (simp add: length_split_file)
  from split_chunks_cuts [OF this] obtain m where m: "m < length (iter_lines ?t)"
      "concat (take (Suc k) (split_chunks ?t)) = concat (take m (iter_lines ?t))"
      "startswith (iter_lines ?t ! m) delimiter"
    by blast
  have "concat (take (Suc k) (map snd (split_file w p s)))
      = concat (map (write_newlines w) (take (Suc k) (split_chunks ?t)))"
    by (simp add: map_snd_split_file take_map)
  also have "\<dots> = write_newlines w (concat (take (Suc k) (split_chunks ?t)))"
    by (simp add: write_newlines_concat)
  finally have "concat (take (Suc k) (map snd (split_file w p s)))
      = write_newlines w (concat (take m (iter_lines ?t)))"
    by (simp add: m)
  with m show ?thesis by (auto simp: delimiter_eq)
qed

lemma carriage_return_file:
  "split_file False ''output.txt'' (''a'' @ [carriage_return] @ ''b'')
     = [(''output_0.txt'', ''a\<newline>b'')]"
  by (simp add: split_file_def split_chunks_def iter_lines_def write_newlines_def chunk_name_0
      carriage_return_def newline_def delimiter_eq startswith_def)

text \<open>
  Claim C3 at a concrete file. The file \<open>two_records\<close> has 5,000,033 bytes in two records,
  each below the limit; on a host that stores newlines as they are, the splitter writes it
  back whole as the single chunk \<open>output_0.txt\<close>, which is not under 4,000,000 bytes. The
  loop starts a new chunk only once the size already collected exceeds \<open>SPLIT_SIZE\<close>,
  whereas the comments of \<open>split_file\<close> promise chunks that are less than
  \<open>SPLIT_SIZE\<close>.
\<close>

theorem split_file_two_records:
  "split_file False ''output.txt'' two_records = [(''output_0.txt'', two_records)] \<and>
   byte_size two_records = 5000033"
  by (simp add: split_file_def read_newlines_two_records split_chunks_two_records chunk_name_0
      byte_size_two_records write_newlines_False)

text \<open>
  Claim C4, as the code has it. The contents of the chunk files, concatenated in the order
  of their indices, are the contents of the input file with its line ends translated: read
  as newlines, then stored as the host stores a newline. They are the contents of the input
  itself, byte for byte, exactly when the line ends of the input are the host's own: when
  it holds no carriage return, on a host that stores a newline as it is, and when its line
  ends are those of Windows, on Windows. The chunk written at position \<open>i\<close> carries the
  index \<open>i\<close> in its name.
\<close>

theorem split_file_roundtrip:
  "concat (map snd (split_file on_win32 file_path input_file))
     = write_newlines on_win32 (read_newlines input_file)
   \<and> (concat (map snd (split_file False file_path input_file)) = input_file
          \<longleftrightarrow> carriage_return \<notin> set input_file)
   \<and> (concat (map snd (split_file True file_path input_file)) = input_file
          \<longleftrightarrow> crlf_only input_file)
   \<and> map fst (split_file on_win32 file_path input_file) =
        map (chunk_name file_path) [0..<length (split_file on_win32 file_path input_file)]"
proof (intro conjI)
  show "concat (map snd (split_file on_win32 file_path input_file))
      = write_newlines on_win32 (read_newlines input_file)"
    by (rule concat_split_file)
  show "concat (map snd (split_file False file_path input_file)) = input_file
      \<longleftrightarrow> carriage_return \<notin> set input_file"
  proof
    assume "concat (map snd (split_file False file_path input_file)) = input_file"
    then have "read_newlines input_file = input_file"
      by (simp add: concat_split_file write_newlines_False)
    with read_newlines_no_cr [of input_file] show "carriage_return \<notin> set input_file"
      by simp
  next
    assume "carriage_return \<notin> set input_file"
    then show "concat (map snd (split_file False file_path input_file)) = input_file"
      by (simp add: concat_split_file write_newlines_False read_newlines_id)
  qed
  show "concat (map snd (split_file True file_path input_file)) = input_file
      \<longleftrightarrow> crlf_only input_file"
    by (simp only: concat_split_file write_read_newlines_crlf)
  show "map fst (split_file on_win32 file_path input_file) =
      map (chunk_name file_path) [0..<length (split_file on_win32 file_path input_file)]"
    by (simp add: map_fst_split_file length_split_file)
qed

text \<open>
  The theorem of C4 at a short output file, which holds no carriage return, and at a line
  stored on Windows.
\<close>

theorem split_file_roundtrip_witness:
  "carriage_return \<notin> set ''p\<newline>----\<newline>a.txt\<newline>hello\<newline>--END--'' \<and>
   concat (map snd (split_file False ''output.txt'' ''p\<newline>----\<newline>a.txt\<newline>hello\<newline>--END--''))
     = ''p\<newline>----\<newline>a.txt\<newline>hello\<newline>--END--'' \<and>
   crlf_only (''hello'' @ [carriage_return, newline]) \<and>
   concat (map snd (split_file True ''output.txt'' (''hello'' @ [carriage_return, newline])))
     = ''hello'' @ [carriage_return, newline]"
proof -
  let ?s = "''p\<newline>----\<newline>a.txt\<newline>hello\<newline>--END--''"
  let ?t = "''hello'' @ [carriage_return, newline]"
  have cr: "carriage_return \<notin> set ?s"
    by (simp add: carriage_return_def)
  with split_file_roundtrip [of False "''output.txt''" ?s]
  have 1: "concat (map snd (split_file False ''output.txt'' ?s)) = ?s" by blast
  have crlf: "crlf_only ?t"
    by (simp add: carriage_return_def newline_def)
  with split_file_roundtrip [of True "''output.txt''" ?t]
  have 2: "concat (map snd (split_file True ''output.txt'' ?t)) = ?t" by blast
  from cr 1 crlf 2 show ?thesis by (intro conjI)
qed

text \<open>
  Claim C4 as stated fails on a file that holds a carriage return: the file of the three
  characters \<open>a\<close>, carriage return, \<open>b\<close> is read as the two lines \<open>a\<close> and \<open>b\<close>, and
  the one chunk written holds a newline where the input holds the carriage return.
\<close>

theorem split_file_carriage_return_counterexample:
  "split_file False ''output.txt'' (''a'' @ [carriage_return] @ ''b'')
     = [(''output_0.txt'', ''a\<newline>b'')] \<and>
   concat (map snd (split_file False ''output.txt'' (''a'' @ [carriage_return] @ ''b'')))
     \<noteq> ''a'' @ [carriage_return] @ ''b''"
proof -
  have "''a\<newline>b'' \<noteq> ''a'' @ [carriage_return] @ ''b''"
    by (simp add: carriage_return_def)
  then show ?thesis
    unfolding carriage_return_file by simp
qed

text \<open>
  Claim C5, as the code has it. Every boundary between two consecutive chunks lies at the
  start of a line of the input, and that line begins with four hyphens; no boundary lies
  before a line that does not begin with four hyphens. So a delimiter line and the path
  line after it land in the same chunk whenever the path line does not itself begin with
  four hyphens. The lines are those of the text read, and the chunks hold them as the host
  stores them.
\<close>

theorem split_file_boundaries:
  assumes "chunks = map snd (split_file on_win32 file_path input_file)"
    and "ls = iter_lines (read_newlines input_file)"
  shows "(\<forall>k. Suc k < length chunks \<longrightarrow>
            (\<exists>m < length ls.
               concat (take (Suc k) chunks) = write_newlines on_win32 (concat (take m ls)) \<and>
               startswith (ls ! m) ''----''))
         \<and> (\<forall>k m. Suc k < length chunks \<and> m < length ls \<and>
               concat (take (Suc k) chunks) = write_newlines on_win32 (concat (take m ls))
               \<longrightarrow> startswith (ls ! m) ''----'')"
proof (intro conjI allI impI)
  fix k assume "Suc k < length chunks"
  with assms have "Suc k < length (split_file on_win32 file_path input_file)" by simp
  from split_file_cuts [OF this] assms
  show "\<exists>m < length ls.
          concat (take (Suc k) chunks) = write_newlines on_win32 (concat (take m ls)) \<and>
          startswith (ls ! m) ''----''"
    by simp
next
  fix k m
  assume a: "Suc k < length chunks \<and> m < length ls \<and>
         concat (take (Suc k) chunks) = write_newlines on_win32 (concat (take m ls))"
  with assms have k: "Suc k < length (split_file on_win32 file_path input_file)" by simp
  from split_file_cuts [OF k] obtain m' where m': "m' < length ls"
      "concat (take (Suc k) chunks) = write_newlines on_win32 (concat (take m' ls))"
      "startswith (ls ! m') ''----''"
    using assms by auto
  have "\<forall>l \<in> set ls. l \<noteq> []" using assms by (simp add: iter_lines_nonempty)
  from write_concat_take_inj [OF this, of m m' on_win32] a m' have "m = m'" by simp
  with m' show "startswith (ls ! m) ''----''" by simp
qed

text \<open>The theorem of C5 at the file \<open>big_then_small\<close>: the boundary lies before line 4.\<close>

theorem split_file_boundaries_witness:
  "Suc 0 < length (map snd (split_file False ''output.txt'' big_then_small)) \<and>
   concat (take (Suc 0) (map snd (split_file False ''output.txt'' big_then_small)))
     = concat (take 4 (iter_lines (read_newlines big_then_small))) \<and>
   startswith (iter_lines (read_newlines big_then_small) ! 4) ''----''"
proof -
  let ?chunks = "map snd (split_file False ''output.txt'' big_then_small)"
  let ?ls = "iter_lines (read_newlines big_then_small)"
  have pre: "Suc 0 < length ?chunks \<and> 4 < length ?ls \<and>
      concat (take (Suc 0) ?chunks) = concat (take 4 ?ls)"
    by (simp add: map_snd_split_file read_newlines_big_then_small split_chunks_big_then_small
        iter_lines_big_then_small write_newlines_False)
  then have "Suc 0 < length ?chunks \<and> 4 < length ?ls \<and>
      concat (take (Suc 0) ?chunks) = write_newlines False (concat (take 4 ?ls))"
    by (simp only: write_newlines_False)
  with split_file_boundaries [of ?chunks False "''output.txt''" big_then_small ?ls]
  have "startswith (?ls ! 4) ''----''" by blast
  with pre show ?thesis by blast
qed

text \<open>
  The second half of C5 fails when a path begins with four hyphens. In
  \<open>hyphen_path_file\<close> line 4 is the delimiter line of the record of the file \<open>----x\<close>
  and line 5 is its path line; 4,000,000 characters come before line 4, so the delimiter
  line is added to the first chunk, and the path line, which begins with four hyphens and
  finds more than \<open>SPLIT_SIZE\<close> characters collected, starts the second chunk.
\<close>

theorem split_file_hyphen_path_counterexample:
  "iter_lines (read_newlines hyphen_path_file) ! 4 = ''----\<newline>'' \<and>
   iter_lines (read_newlines hyphen_path_file) ! 5 = ''----x\<newline>'' \<and>
   map snd (split_file False ''output.txt'' hyphen_path_file) =
     [concat (take 5 (iter_lines (read_newlines hyphen_path_file))),
      concat (drop 5 (iter_lines (read_newlines hyphen_path_file)))]"
  by (simp add: map_snd_split_file read_newlines_hyphen_path_file split_chunks_hyphen_path_file
      iter_lines_hyphen_path_file write_newlines_False)

text \<open>
  Claim C6. The splitter writes at least one chunk file for every input; for the empty
  input it writes one empty chunk, and for an input of at most 4,000,000 characters it
  writes the input back, its line ends translated, as the one chunk of index 0: the input
  itself when it holds no carriage return and the host stores a newline as it is.
\<close>

theorem split_file_at_least_one:
  "1 \<le> length (split_file on_win32 file_path input_file) \<and>
   split_file on_win32 file_path [] = [(chunk_name file_path 0, [])] \<and>
   (length input_file \<le> 4000000 \<longrightarrow>
      split_file on_win32 file_path input_file
        = [(chunk_name file_path 0, write_newlines on_win32 (read_newlines input_file))]) \<and>
   (length input_file \<le> 4000000 \<and> carriage_return \<notin> set input_file \<longrightarrow>
      split_file False file_path input_file = [(chunk_name file_path 0, input_file)])"
proof (intro conjI impI)
  show "1 \<le> length (split_file on_win32 file_path input_file)"
    using split_chunks_nonempty [of "read_newlines input_file"]
    by (cases "split_chunks (read_newlines input_file)") (simp_all add: length_split_file)
  show "split_file on_win32 file_path [] = [(chunk_name file_path 0, [])]"
    by (simp add: split_file_def split_chunks_def iter_lines_def write_newlines_Nil)
  have small: "split_file w file_path input_file
      = [(chunk_name file_path 0, write_newlines w (read_newlines input_file))]"
    if "length input_file \<le> 4000000" for w
  proof -
    from that length_read_newlines [of input_file]
    have "length (read_newlines input_file) \<le> SPLIT_SIZE" by (simp add: SPLIT_SIZE_def)
    then have "split_chunks (read_newlines input_file) = [read_newlines input_file]"
      by (rule split_chunks_small)
    then show ?thesis by (simp add: split_file_def)
  qed
  show "split_file on_win32 file_path input_file
      = [(chunk_name file_path 0, write_newlines on_win32 (read_newlines input_file))]"
    if "length input_file \<le> 4000000"
    using that by (rule small)
  show "split_file False file_path input_file = [(chunk_name file_path 0, input_file)]"
    if "length input_file \<le> 4000000 \<and> carriage_return \<notin> set input_file"
    using that small [of False] by (simp add: write_newlines_False read_newlines_id)
qed

text \<open>The theorem of C6 at a short output file.\<close>

theorem split_file_at_least_one_witness:
  "length ''p\<newline>----\<newline>a.txt\<newline>hello\<newline>--END--'' \<le> 4000000 \<and>
   carriage_return \<notin> set ''p\<newline>----\<newline>a.txt\<newline>hello\<newline>--END--'' \<and>
   split_file False ''output.txt'' ''p\<newline>----\<newline>a.txt\<newline>hello\<newline>--END--''
     = [(''output_0.txt'', ''p\<newline>----\<newline>a.txt\<newline>hello\<newline>--END--'')]"
proof -
  let ?s = "''p\<newline>----\<newline>a.txt\<newline>hello\<newline>--END--''"
  have len: "length ?s \<le> 4000000" by simp
  have cr: "carriage_return \<notin> set ?s" by (simp add: carriage_return_def)
  from split_file_at_least_one [of False "''output.txt''" ?s] len cr
  have "split_file False ''output.txt'' ?s = [(chunk_name ''output.txt'' 0, ?s)]"
    by blast
  then have "split_file False ''output.txt'' ?s = [(''output_0.txt'', ?s)]"
    by (simp only: chunk_name_0)
  with len cr show ?thesis by (intro conjI)
qed

text \<open>
  Claim C10. When the splitter writes more than one chunk, every chunk but the last has
  more than 4,000,000 bytes: a chunk is closed only at a delimiter line met after the
  characters collected exceed \<open>SPLIT_SIZE\<close>, a character takes at least one byte, and
  storing a newline never takes fewer characters.
\<close>

theorem split_file_lower_bound:
  assumes "Suc k < length (split_file on_win32 file_path input_file)"
  shows "4000000 < byte_size (snd (split_file on_win32 file_path input_file ! k))"
proof -
  let ?cs = "split_chunks (read_newlines input_file)"
  from assms have k: "Suc k < length ?cs"
    by (simp add: length_split_file)
  then have "SPLIT_SIZE < length (?cs ! k)" by (rule split_chunks_big)
  also have "\<dots> \<le> byte_size (?cs ! k)" by (rule length_le_byte_size)
  also have "\<dots> \<le> byte_size (write_newlines on_win32 (?cs ! k))"
    by (rule byte_size_write_newlines)
  finally have "4000000 < byte_size (write_newlines on_win32 (?cs ! k))"
    by (simp add: SPLIT_SIZE_def)
  moreover from k
  have "snd (split_file on_win32 file_path input_file ! k) = write_newlines on_win32 (?cs ! k)"
    using nth_map [of k "split_file on_win32 file_path input_file" snd]
    by (simp add: map_snd_split_file length_split_file)
  ultimately show ?thesis by simp
qed

text \<open>The theorem of C10 at the file \<open>big_then_small\<close>, which is split in two.\<close>

theorem split_file_lower_bound_witness:
  "Suc 0 < length (split_file False ''output.txt'' big_then_small) \<and>
   4000000 < byte_size (snd (split_file False ''output.txt'' big_then_small ! 0))"
proof -
  have "Suc 0 < length (split_file False ''output.txt'' big_then_small)"
    by (simp add: length_split_file read_newlines_big_then_small split_chunks_big_then_small)
  with split_file_lower_bound [of 0 False "''output.txt''" big_then_small] show ?thesis by blast
qed

section \<open>Properties of the repository concatenator\<close>

lemma too_large_iff:
  "(path_exists h p \<and> (case path_getsize h p of Inl e \<Rightarrow> False | Inr n \<Rightarrow> n > LARGE_FILE_SIZE))
     = oversized h p"
  by (simp add: path_exists_def path_getsize_def oversized_def LARGE_FILE_SIZE_def
      split: option.splits)

lemma process_file_eq:
  "process_file h repo ign out x root file =
     (let fp = path_join h root file in
      if included h repo ign x fp then
        (case read_text h fp of
           None \<Rightarrow> (out, Some OSError)
         | Some contents \<Rightarrow> (out @ record_of h repo fp, None))
      else (out, None))"
  by (auto simp: process_file_def write_record_def included_def record_of_def Let_def
      path_exists_def path_getsize_def oversized_def LARGE_FILE_SIZE_def delimiter_eq
      split: option.splits)

lemma process_files_eq:
  "process_files h repo ign out x root files = (out', st) \<Longrightarrow>
   (st = None \<longleftrightarrow> readable h (filter (included h repo ign x) (map (path_join h root) files))) \<and>
   (st = None \<longrightarrow>
      out' = out @ concat (map (record_of h repo)
               (filter (included h repo ign x) (map (path_join h root) files))))"
proof (induction files arbitrary: out)
  case Nil
  then show ?case by (auto simp: readable_def)
next
  case (Cons f files)
  let ?fp = "path_join h root f"
  show ?case
  proof (cases "included h repo ign x ?fp")
    case False
    with Cons.prems have "process_files h repo ign out x root files = (out', st)"
      by (simp add: process_file_eq)
    from Cons.IH [OF this] False show ?thesis by (simp add: readable_def)
  next
    case True
    show ?thesis
    proof (cases "read_text h ?fp")
      case None
      with True Cons.prems have "st = Some OSError" by (simp add: process_file_eq)
      with True None show ?thesis by (simp add: readable_def)
    next
      case (Some contents)
      with True Cons.prems
      have "process_files h repo ign (out @ record_of h repo ?fp) x root files = (out', st)"
        by (simp add: process_file_eq)
      from Cons.IH [OF this] True Some show ?thesis by (simp add: readable_def)
    qed
  qed
qed

lemma readable_Nil: "readable h []"
  by (simp add: readable_def)

lemma readable_append: "readable h (a @ b) = (readable h a \<and> readable h b)"
  by (auto simp: readable_def)

lemma process_walk_eq:
  "process_walk h repo ign out x triples = (out', st) \<Longrightarrow>
   (st = None \<longleftrightarrow> readable h (filter (included h repo ign x)
        (concat (map (\<lambda>(root, dirs, files). map (path_join h root) files) triples)))) \<and>
   (st = None \<longrightarrow>
      out' = out @ concat (map (record_of h repo)
               (filter (included h repo ign x)
                  (concat (map (\<lambda>(root, dirs, files). map (path_join h root) files) triples)))))"
proof (induction triples arbitrary: out)
  case Nil
  then show ?case by (auto simp: readable_Nil)
next
  case (Cons t triples)
  obtain root dirs files where t: "t = (root, dirs, files)" by (cases t) auto
  obtain out1 st1 where one: "process_files h repo ign out x root files = (out1, st1)"
    by (cases "process_files h repo ign out x root files") auto
  let ?F = "\<lambda>(root, dirs, files). map (path_join h root) files"
  let ?A = "filter (included h repo ign x) (map (path_join h root) files)"
  let ?B = "filter (included h repo ign x) (concat (map ?F triples))"
  have split: "filter (included h repo ign x) (concat (map ?F (t # triples))) = ?A @ ?B"
    by (simp add: t)
  from process_files_eq [OF one]
  have st1: "st1 = None \<longleftrightarrow> readable h ?A"
    and out1: "st1 = None \<longrightarrow> out1 = out @ concat (map (record_of h repo) ?A)"
    by blast+
  have "(st = None \<longleftrightarrow> readable h (?A @ ?B)) \<and>
        (st = None \<longrightarrow> out' = out @ concat (map (record_of h repo) (?A @ ?B)))"
  proof (cases st1)
    case (Some e)
    with one t Cons.prems have "st = Some e" by simp
    moreover from Some st1 have "\<not> readable h ?A" by simp
    ultimately show ?thesis by (simp add: readable_append)
  next
    case None
    with one t Cons.prems have rest: "process_walk h repo ign out1 x triples = (out', st)"
      by simp
    from Cons.IH [OF rest]
    have st: "st = None \<longleftrightarrow> readable h ?B"
      and out': "st = None \<longrightarrow> out' = out1 @ concat (map (record_of h repo) ?B)"
      by blast+
    from None st1 have rA: "readable h ?A" by simp
    from None out1 have o1: "out1 = out @ concat (map (record_of h repo) ?A)" by simp
    show ?thesis
    proof
      show "st = None \<longleftrightarrow> readable h (?A @ ?B)"
        using st rA by (simp only: readable_append) blast
      show "st = None \<longrightarrow> out' = out @ concat (map (record_of h repo) (?A @ ?B))"
      proof
        assume "st = None"
        with out' have "out' = out1 @ concat (map (record_of h repo) ?B)" by blast
        then show "out' = out @ concat (map (record_of h repo) (?A @ ?B))"
          by (simp only: o1 map_append concat_append append_assoc)
      qed
    qed
  qed
  then show ?case unfolding split .
qed

lemma process_repository_eq:
  assumes "process_repository h repo ign out v x = (out', st)"
  shows "(st = None \<longleftrightarrow> readable h (recorded_files h repo ign x)) \<and>
         (st = None \<longrightarrow> out' = out @ concat (map (record_of h repo) (recorded_files h repo ign x)))"
proof -
  from assms have "process_walk h repo ign out x (os_walk h repo) = (out', st)"
    by (simp only: process_repository_def)
  then show ?thesis
    unfolding recorded_files_def walk_files_def by (rule process_walk_eq)
qed









text \<open>
  Claim C7. Under the skip-large-files flag, for a file of more than 1,000,000 bytes the
  loop body leaves the sink as it is, whatever the ignore list; the file is not among
  those recorded, and the output of a completed run is made of the records of other files.
\<close>

theorem process_repository_skips_large:
  assumes "stat_size h (path_join h root f) = Some n" and "1000000 < n"
  shows "process_file h repo_path ignore_list output_file True root f = (output_file, None)
         \<and> path_join h root f \<notin> set (recorded_files h repo_path ignore_list True)
         \<and> (\<forall>out. process_repository h repo_path ignore_list output_file verbose True = (out, None)
               \<longrightarrow> out = output_file @ concat (map (record_of h repo_path)
                     (filter (\<lambda>p. p \<noteq> path_join h root f)
                        (recorded_files h repo_path ignore_list True))))"
proof (intro conjI allI impI)
  from assms have big: "oversized h (path_join h root f)"
    by (simp add: oversized_def)
  then have out: "\<not> included h repo_path ignore_list True (path_join h root f)"
    by (simp add: included_def)
  then show "process_file h repo_path ignore_list output_file True root f = (output_file, None)"
    by (simp add: process_file_eq)
  from out show absent: "path_join h root f \<notin> set (recorded_files h repo_path ignore_list True)"
    by (simp add: recorded_files_def)
  fix out
  assume "process_repository h repo_path ignore_list output_file verbose True = (out, None)"
  from process_repository_eq [OF this]
  have "out = output_file @ concat (map (record_of h repo_path)
          (recorded_files h repo_path ignore_list True))"
    by blast
  moreover from absent
  have "filter (\<lambda>p. p \<noteq> path_join h root f) (recorded_files h repo_path ignore_list True)
          = recorded_files h repo_path ignore_list True"
    by (intro filter_True) auto
  ultimately show "out = output_file @ concat (map (record_of h repo_path)
                     (filter (\<lambda>p. p \<noteq> path_join h root f)
                        (recorded_files h repo_path ignore_list True)))"
    by simp
qed

text \<open>
  The theorem of C7 on the sample repository: \<open>big.bin\<close> has 2,000,000 bytes and no
  pattern matches it.
\<close>

theorem process_repository_skips_large_witness:
  "process_file demo_host ''repo'' [] ''p\<newline>'' True ''repo'' ''big.bin'' = (''p\<newline>'', None) \<and>
   ''repo/big.bin'' \<notin> set (recorded_files demo_host ''repo'' [] True) \<and>
   process_repository demo_host ''repo'' [] ''p\<newline>'' False True =
     (''p\<newline>----\<newline>.gptignore\<newline>b.txt\<newline>\<newline>----\<newline>a.txt\<newline>hello\<newline>----\<newline>b.txt\<newline>secret\<newline>----\<newline>src/main.py\<newline>print(1)\<newline>\<newline>'',
      None)"
proof -
  have "stat_size demo_host (path_join demo_host ''repo'' ''big.bin'') = Some 2000000"
    by (simp add: demo_host_def)
  from process_repository_skips_large [OF this, of "''repo''" "[]" "''p\<newline>''"]
  have "process_file demo_host ''repo'' [] ''p\<newline>'' True ''repo'' ''big.bin'' = (''p\<newline>'', None) \<and>
      ''repo/big.bin'' \<notin> set (recorded_files demo_host ''repo'' [] True)"
    by (simp add: demo_host_def)
  moreover have "process_repository demo_host ''repo'' [] ''p\<newline>'' False True =
     (''p\<newline>----\<newline>.gptignore\<newline>b.txt\<newline>\<newline>----\<newline>a.txt\<newline>hello\<newline>----\<newline>b.txt\<newline>secret\<newline>----\<newline>src/main.py\<newline>print(1)\<newline>\<newline>'',
      None)"
    by (simp add: process_repository_def process_file_def write_record_def demo_host_def
        path_exists_def path_getsize_def LARGE_FILE_SIZE_def should_ignore_def delimiter_eq
        newline_def)
  ultimately show ?thesis by blast
qed

section \<open>Properties of the pattern loader\<close>

lemma should_ignore_filter:
  "filter keep_pattern l = filter keep_pattern l' \<Longrightarrow>
   should_ignore fnm x l = should_ignore fnm x l'"
  by (simp add: should_ignore_def)

lemma ignore_loop_eq:
  "ignore_loop w ls acc =
     acc @ map (\<lambda>line. strip (if w then slash_to_backslash line else line)) ls"
  by (induction ls arbitrary: acc) (simp_all add: Let_def)

lemma strip_blank: "\<forall>c \<in> set line. isspace c \<Longrightarrow> strip line = []"
proof -
  assume "\<forall>c \<in> set line. isspace c"
  then have dw: "dropWhile isspace line = []" by (simp add: dropWhile_eq_Nil_conv)
  show ?thesis by (simp only: strip_def dw rev.simps dropWhile.simps)
qed

text \<open>
  Claim C8. Two pattern lists with the same patterns once the empty ones and those
  starting with \<open>#\<close> are left out give the same answer for every path; in particular
  inserting or removing one such pattern anywhere changes nothing. The loader keeps every
  line of the file, stripped: it returns as many patterns as the file has lines, a blank
  line becoming the empty pattern; the lines are dropped only by the matcher.
\<close>

theorem noise_patterns_have_no_effect:
  "(filter keep_pattern l = filter keep_pattern l' \<longrightarrow>
      should_ignore fnm x l = should_ignore fnm x l')
   \<and> (p = [] \<or> startswith p ''#'' \<longrightarrow>
         should_ignore fnm x (l1 @ p # l2) = should_ignore fnm x (l1 @ l2))
   \<and> get_ignore_list w f =
         map (\<lambda>line. strip (if w then slash_to_backslash line else line)) (iter_lines f)
   \<and> length (get_ignore_list w f) = length (iter_lines f)
   \<and> ((\<forall>c \<in> set line. isspace c) \<longrightarrow> strip line = [])"
proof (intro conjI impI)
  assume "filter keep_pattern l = filter keep_pattern l'"
  then show "should_ignore fnm x l = should_ignore fnm x l'" by (rule should_ignore_filter)
next
  assume "p = [] \<or> startswith p ''#''"
  then have "\<not> keep_pattern p" by (auto simp: keep_pattern_def)
  then show "should_ignore fnm x (l1 @ p # l2) = should_ignore fnm x (l1 @ l2)"
    by (simp add: should_ignore_def)
next
  show eq: "get_ignore_list w f =
         map (\<lambda>line. strip (if w then slash_to_backslash line else line)) (iter_lines f)"
    by (simp add: get_ignore_list_def ignore_loop_eq)
  then show "length (get_ignore_list w f) = length (iter_lines f)" by simp
next
  assume "\<forall>c \<in> set line. isspace c"
  then show "strip line = []" by (rule strip_blank)
qed

text \<open>The theorem of C8 on an ignore file with a comment and a blank line.\<close>

theorem noise_patterns_have_no_effect_witness:
  "get_ignore_list False ''# build output\<newline>   \<newline>  build \<newline>*.log''
     = [''# build output'', [], ''build'', ''*.log'']
   \<and> should_ignore wildcard ''src/build_utils.py'' [''# build output'', [], ''build'', ''*.log'']
     = should_ignore wildcard ''src/build_utils.py'' [''build'', ''*.log'']
   \<and> strip ''   \<newline>'' = []"
proof -
  let ?l = "[''# build output'', [], ''build'', ''*.log'']"
  let ?l' = "[''build'', ''*.log'']"
  note inst = noise_patterns_have_no_effect
    [of ?l ?l' wildcard "''src/build_utils.py''" "[]" "[]" "[]" False
        "''# build output\<newline>   \<newline>  build \<newline>*.log''" "''   \<newline>''"]
  have 1: "filter keep_pattern ?l = filter keep_pattern ?l'"
    by (simp add: keep_pattern_def startswith_def)
  have 2: "\<forall>c \<in> set ''   \<newline>''. isspace c" by (simp add: isspace_def)
  have 3: "map (\<lambda>line. strip line) (iter_lines ''# build output\<newline>   \<newline>  build \<newline>*.log'') = ?l"
    by (simp add: iter_lines_def newline_def strip_def isspace_def)
  from inst 1 2 3 show ?thesis by simp
qed

section \<open>Properties of the command line\<close>

lemma list_index_first:
  "x \<in> set xs \<Longrightarrow> \<exists>i < length xs. list_index xs x = Inr i \<and> xs ! i = x \<and> x \<notin> set (take i xs)"
proof (induction xs)
  case Nil
  then show ?case by simp
next
  case (Cons y ys)
  show ?case
  proof (cases "y = x")
    case True
    then show ?thesis by auto
  next
    case False
    with Cons obtain i where "i < length ys" "list_index ys x = Inr i" "ys ! i = x"
        "x \<notin> set (take i ys)"
      by auto
    with False have "Suc i < length (y # ys) \<and> list_index (y # ys) x = Inr (Suc i) \<and>
        (y # ys) ! Suc i = x \<and> x \<notin> set (take (Suc i) (y # ys))"
      by auto
    then show ?thesis by blast
  qed
qed

lemma list_index_last:
  assumes "xs \<noteq> []" and "last xs = x" and "x \<notin> set (butlast xs)"
  shows "list_index xs x = Inr (length xs - 1)"
proof -
  from assms have "x \<in> set xs" by (metis last_in_set)
  from list_index_first [OF this] obtain i where i: "i < length xs" "list_index xs x = Inr i"
      "xs ! i = x"
    by blast
  have "i = length xs - 1"
  proof (rule ccontr)
    assume "i \<noteq> length xs - 1"
    with i have "i < length (butlast xs)" by simp
    then have "butlast xs ! i \<in> set (butlast xs)" by (rule nth_mem)
    moreover from \<open>i < length (butlast xs)\<close> have "butlast xs ! i = xs ! i"
      by (simp add: nth_butlast)
    ultimately show False using i assms by simp
  qed
  with i show ?thesis by simp
qed

lemma value_after_last:
  assumes "xs \<noteq> []" and "last xs = x" and "x \<notin> set (butlast xs)"
  shows "value_after xs x = Inl IndexError"
  using list_index_last [OF assms] assms(1)
  by (cases xs) (simp_all add: value_after_def item_def)

lemma value_after_not_last:
  assumes "x \<in> set xs" and "last xs \<noteq> x"
  shows "\<exists>v. value_after xs x = Inr v"
proof -
  from list_index_first [OF assms(1)] obtain i where i: "i < length xs"
      "list_index xs x = Inr i" "xs ! i = x"
    by blast
  from assms(1) have "xs \<noteq> []" by auto
  with i assms(2) have "i \<noteq> length xs - 1" by (auto simp: last_conv_nth)
  with i have "i + 1 < length xs" by simp
  with i show ?thesis by (simp add: value_after_def item_def)
qed

text \<open>
  Claim C9, as the code has it. On a command line of at least two elements whose last
  element is \<open>-p\<close> or \<open>-o\<close> and in which that flag does not occur earlier, the
  handling of the arguments ends with \<open>IndexError\<close>: the run is aborted before any file
  is written.
\<close>

theorem missing_flag_value:
  assumes "2 \<le> length argv"
    and "flag = ''-p'' \<or> flag = ''-o''"
    and "last argv = flag"
    and "flag \<notin> set (butlast argv)"
  shows "main_args h argv = Inl IndexError \<and> main h argv = ([], Some IndexError)"
proof -
  from assms(1) have ne: "argv \<noteq> []" by auto
  from value_after_last [OF ne assms(3,4)] have fail: "value_after argv flag = Inl IndexError" .
  from ne assms(3) have mem: "flag \<in> set argv" by (metis last_in_set)
  have "main_args h argv = Inl IndexError"
  proof (cases "flag = ''-p''")
    case True
    with fail mem assms(1) show ?thesis by (simp add: main_args_def Let_def)
  next
    case False
    with assms(2) have o: "flag = ''-o''" by simp
    show ?thesis
    proof (cases "''-p'' \<in> set argv")
      case True
      from o assms(3) have "last argv \<noteq> ''-p''" by simp
      from value_after_not_last [OF True this] obtain v where "value_after argv ''-p'' = Inr v" ..
      with True fail mem o assms(1) show ?thesis by (simp add: main_args_def Let_def)
    next
      case False
      with fail mem o assms(1) show ?thesis by (simp add: main_args_def Let_def)
    qed
  qed
  then show ?thesis by (simp add: main_def)
qed

text \<open>The theorem of C9 on a command line that ends with \<open>-o\<close>.\<close>

theorem missing_flag_value_witness:
  "main_args demo_host [''gpt_repository_loader.py'', ''repo'', ''-x'', ''-o''] = Inl IndexError \<and>
   main demo_host [''gpt_repository_loader.py'', ''repo'', ''-x'', ''-o''] = ([], Some IndexError)"
  using missing_flag_value [of "[''gpt_repository_loader.py'', ''repo'', ''-x'', ''-o'']" "''-o''" demo_host]
  by simp

text \<open>
  Claim C9 as stated fails when the flag is repeated: \<open>index\<close> finds the first \<open>-p\<close>,
  whose value is \<open>pre.txt\<close>, so the trailing \<open>-p\<close> is never looked at; the arguments
  are accepted and the run completes.
\<close>

theorem repeated_flag_counterexample:
  "last [''gpt_repository_loader.py'', ''repo'', ''-p'', ''pre.txt'', ''-p''] = ''-p'' \<and>
   main_args demo_host [''gpt_repository_loader.py'', ''repo'', ''-p'', ''pre.txt'', ''-p''] =
     Inr \<lparr>s_repo_path = ''repo'', s_ignore_file_path = ''repo/.gptignore'',
          s_preamble_file = Some ''pre.txt'', s_output_file_path = ''output.txt''\<rparr> \<and>
   snd (main demo_host [''gpt_repository_loader.py'', ''repo'', ''-p'', ''pre.txt'', ''-p'']) = None"
  by (simp add: main_def main_args_def value_after_def item_def find_ignore_file_def
      main_run_def load_ignore_list_def load_preamble_def get_ignore_list_def iter_lines_def
      path_exists_def demo_host_def newline_def strip_def isspace_def write_newlines_def
      process_repository_def process_file_def write_record_def path_getsize_def
      should_ignore_def keep_pattern_def startswith_def LARGE_FILE_SIZE_def delimiter_eq)

text \<open>
  The file \<open>hyphen_path_file\<close> is the output of a run: on \<open>hyphen_host\<close>, with the
  preamble file \<open>pre.txt\<close> and \<open>-s\<close>, the script writes it as \<open>output.txt\<close> and splits
  it between the delimiter line and the path line of the record of \<open>----x\<close>.
\<close>

lemma main_hyphen_host:
  "main hyphen_host [''gpt_repository_loader.py'', ''repo'', ''-p'', ''pre.txt'', ''-s''] =
     ([(''output.txt'', hyphen_path_file),
       (''output_0.txt'', ''p\<newline>----\<newline>a.txt\<newline>'' @ padding 3999986 @ ''\<newline>----\<newline>''),
       (''output_1.txt'', ''----x\<newline>c\<newline>--END--'')], None)"
proof -
  have args: "main_args hyphen_host [''gpt_repository_loader.py'', ''repo'', ''-p'', ''pre.txt'', ''-s''] =
      Inr \<lparr>s_repo_path = ''repo'', s_ignore_file_path = ''/opt/tool/.gptignore'',
          s_preamble_file = Some ''pre.txt'', s_output_file_path = ''output.txt''\<rparr>"
    by (simp add: main_args_def value_after_def item_def find_ignore_file_def hyphen_host_def
        path_exists_def)
  have run: "process_repository hyphen_host ''repo'' [] ''p\<newline>'' False False =
      (''p\<newline>----\<newline>a.txt\<newline>'' @ padding 3999986 @ ''\<newline>----\<newline>----x\<newline>c\<newline>'', None)"
    by (simp add: process_repository_def process_file_def write_record_def hyphen_host_def
        should_ignore_def delimiter_eq newline_def)
  have whole: "(''p\<newline>----\<newline>a.txt\<newline>'' @ padding 3999986 @ ''\<newline>----\<newline>----x\<newline>c\<newline>'') @ ''--END--''
      = hyphen_path_file"
    by (simp add: hyphen_path_file_def)
  have chunks: "split_file False ''output.txt'' hyphen_path_file =
      [(''output_0.txt'', ''p\<newline>----\<newline>a.txt\<newline>'' @ padding 3999986 @ ''\<newline>----\<newline>''),
       (''output_1.txt'', ''----x\<newline>c\<newline>--END--'')]"
    by (simp add: split_file_def read_newlines_hyphen_path_file split_chunks_hyphen_path_file
        write_newlines_False chunk_name_0
        chunk_name_1 [unfolded One_nat_def])
  have pre: "load_preamble hyphen_host (Some ''pre.txt'') = Inr ''p\<newline>''"
    by (simp add: load_preamble_def hyphen_host_def newline_def)
  have ign: "load_ignore_list hyphen_host ''/opt/tool/.gptignore'' = Inr []"
    by (simp add: load_ignore_list_def path_exists_def hyphen_host_def)
  have posix: "win32 hyphen_host = False" by (simp add: hyphen_host_def)
  show ?thesis
    by (simp add: main_def args main_run_def ign pre run posix write_newlines_False whole chunks
        del: append.simps append_assoc)
qed

end
